theory Spec2Isabelle
  imports Complex_Main "HOL-Library.Char_ord" "HOL-Library.List_Lexorder"
begin

section \<open>Data model of \<^verbatim>\<open>backend/main.py\<close>\<close>

text \<open>
  The enums \<^verbatim>\<open>IssueStatus\<close> and \<^verbatim>\<open>IssuePriority\<close>. The members \<^verbatim>\<open>open\<close> and
  \<^verbatim>\<open>closed\<close> carry a suffix, since HOL has constants of these names.
\<close>

datatype IssueStatus = open_status | in_progress | closed_status

datatype IssuePriority = low | medium | high | critical

text \<open>
  A \<^verbatim>\<open>datetime\<close> is a point on a linear time axis; \<^verbatim>\<open>datetime.now()\<close> and
  \<^verbatim>\<open>uuid.uuid4()\<close> are readings of the environment and are passed to the operations.
  Text is a list of code points below 256 (the Latin-1 range of Python's \<^verbatim>\<open>str\<close>), one
  \<^typ>\<open>char\<close> for each code point; \<^verbatim>\<open>len\<close> is the number of code points and strings
  compare code point by code point.
\<close>

type_synonym datetime = int

text \<open>
  A stored \<^verbatim>\<open>Issue\<close> object. The class declares \<^verbatim>\<open>title: str\<close>,
  \<^verbatim>\<open>status: IssueStatus\<close> and \<^verbatim>\<open>priority: IssuePriority\<close>, but \<^verbatim>\<open>update_issue\<close>
  assigns attributes with \<^verbatim>\<open>setattr\<close> and no validation, so at run time each of the five
  client-settable attributes can hold \<^verbatim>\<open>None\<close>.
\<close>

record Issue =
  title :: "string option"
  description :: "string option"
  status :: "IssueStatus option"
  priority :: "IssuePriority option"
  assignee :: "string option"
  issue_id :: string
  created_at :: datetime
  updated_at :: datetime

text \<open>A validated \<^verbatim>\<open>IssueCreate\<close> body: title and the two enums are always there.\<close>

record IssueCreate =
  title_c :: string
  description_c :: "string option"
  status_c :: IssueStatus
  priority_c :: IssuePriority
  assignee_c :: "string option"

text \<open>
  A validated \<^verbatim>\<open>IssueUpdate\<close> body. Every field is \<^verbatim>\<open>Optional\<close> with default
  \<^verbatim>\<open>None\<close>; the outer option records whether the field is in \<^verbatim>\<open>model_fields_set\<close>
  (present in the request), the inner one is its value, which may be \<^verbatim>\<open>None\<close>.
\<close>

record IssueUpdate =
  title_u :: "string option option"
  description_u :: "string option option"
  status_u :: "IssueStatus option option"
  priority_u :: "IssuePriority option option"
  assignee_u :: "string option option"

record error_detail =
  error :: string
  message :: string
  suggestion :: string

datatype exception =
  HTTPException nat error_detail
  | AttributeError
  | ZeroDivisionError

text \<open>The \<^verbatim>\<open>Field\<close> constraints that pydantic enforces before a handler runs.\<close>

definition max_len :: "nat \<Rightarrow> string option \<Rightarrow> bool" where
  "max_len n v = (case v of None \<Rightarrow> True | Some s \<Rightarrow> length s \<le> n)"

definition valid_create :: "IssueCreate \<Rightarrow> bool" where
  "valid_create c =
     (1 \<le> length (title_c c) \<and> length (title_c c) \<le> 200
      \<and> max_len 2000 (description_c c) \<and> max_len 100 (assignee_c c))"

definition valid_update :: "IssueUpdate \<Rightarrow> bool" where
  "valid_update u =
     ((case title_u u of
         Some (Some t) \<Rightarrow> 1 \<le> length t \<and> length t \<le> 200
       | _ \<Rightarrow> True)
      \<and> (case description_u u of Some d \<Rightarrow> max_len 2000 d | None \<Rightarrow> True)
      \<and> (case assignee_u u of Some a \<Rightarrow> max_len 100 a | None \<Rightarrow> True))"

section \<open>The store: create, get, update\<close>

definition not_found :: "string \<Rightarrow> exception" where
  "not_found iid =
     HTTPException 404
       \<lparr> error = ''Issue not found'',
         message = ''No issue exists with ID: '' @ iid,
         suggestion = ''Check the issue ID or use GET /issues to see all available issues'' \<rparr>"

text \<open>
  \<^verbatim>\<open>create_issue\<close>: \<^verbatim>\<open>datetime.now()\<close> is called twice, first for \<^verbatim>\<open>created_at\<close>,
  then for \<^verbatim>\<open>updated_at\<close>. Returns the new issue and the collection after the append.
\<close>

definition create_issue ::
  "IssueCreate \<Rightarrow> string \<Rightarrow> datetime \<Rightarrow> datetime \<Rightarrow> Issue list \<Rightarrow> Issue \<times> Issue list" where
  "create_issue issue_data uuid4 now1 now2 issues_db =
     (let new_issue =
        \<lparr> title = Some (title_c issue_data),
          description = description_c issue_data,
          status = Some (status_c issue_data),
          priority = Some (priority_c issue_data),
          assignee = assignee_c issue_data,
          issue_id = uuid4,
          created_at = now1,
          updated_at = now2 \<rparr>
      in (new_issue, issues_db @ [new_issue]))"

text \<open>Position of the first element satisfying a predicate: \<^verbatim>\<open>next((... if ...), None)\<close>.\<close>

fun first_index :: "('a \<Rightarrow> bool) \<Rightarrow> 'a list \<Rightarrow> nat option" where
  "first_index P [] = None"
| "first_index P (x # xs) = (if P x then Some 0 else map_option Suc (first_index P xs))"

definition get_issue :: "string \<Rightarrow> Issue list \<Rightarrow> exception + Issue" where
  "get_issue iid issues_db =
     (case first_index (\<lambda>issue. issue_id issue = iid) issues_db of
        None \<Rightarrow> Inl (not_found iid)
      | Some i \<Rightarrow> Inr (issues_db ! i))"

text \<open>
  One round of the loop over \<^verbatim>\<open>model_dump(exclude_unset=True)\<close>: a field that is not in
  the dumped dict keeps its value, a field in it is overwritten by \<^verbatim>\<open>setattr\<close>.
\<close>

definition set_field :: "'a option \<Rightarrow> 'a \<Rightarrow> 'a" where
  "set_field u old = (case u of None \<Rightarrow> old | Some v \<Rightarrow> v)"

definition apply_update :: "IssueUpdate \<Rightarrow> Issue \<Rightarrow> Issue" where
  "apply_update u issue =
     issue
       \<lparr> title := set_field (title_u u) (title issue),
         description := set_field (description_u u) (description issue),
         status := set_field (status_u u) (status issue),
         priority := set_field (priority_u u) (priority issue),
         assignee := set_field (assignee_u u) (assignee issue) \<rparr>"

text \<open>
  \<^verbatim>\<open>update_issue\<close> mutates the object found in \<^verbatim>\<open>issues_db\<close>; the model returns the
  response together with the collection after the call.
\<close>

definition update_issue ::
  "string \<Rightarrow> IssueUpdate \<Rightarrow> datetime \<Rightarrow> Issue list \<Rightarrow> (exception + Issue) \<times> Issue list" where
  "update_issue iid issue_update now issues_db =
     (case first_index (\<lambda>issue. issue_id issue = iid) issues_db of
        None \<Rightarrow> (Inl (not_found iid), issues_db)
      | Some i \<Rightarrow>
          (let issue = (apply_update issue_update (issues_db ! i)) \<lparr> updated_at := now \<rparr>
           in (Inr issue, issues_db[i := issue])))"

section \<open>The list query\<close>

subsection \<open>Strings\<close>

text \<open>
  \<^verbatim>\<open>str.lower\<close>. Below 256 the cased code points with a different lower-case form are
  \<^verbatim>\<open>A\<close> to \<^verbatim>\<open>Z\<close> (65 to 90) and the capital letters from U+00C0 to U+00DE (192 to 222)
  without the multiplication sign U+00D7 (215); each is folded to the code point 32 above
  it, and every other code point is left as it is.
\<close>

definition lower_char :: "char \<Rightarrow> char" where
  "lower_char c =
     (let n = (of_char c :: nat)
      in if (65 \<le> n \<and> n \<le> 90) \<or> (192 \<le> n \<and> n \<le> 222 \<and> n \<noteq> 215)
         then char_of (n + 32)
         else c)"

definition lower :: "string \<Rightarrow> string" where
  "lower s = map lower_char s"

fun starts_with :: "string \<Rightarrow> string \<Rightarrow> bool" where
  "starts_with [] s = True"
| "starts_with (a # sub) [] = False"
| "starts_with (a # sub) (c # s) = (a = c \<and> starts_with sub s)"

text \<open>The substring test \<^verbatim>\<open>sub in s\<close>.\<close>

fun str_in :: "string \<Rightarrow> string \<Rightarrow> bool" where
  "str_in sub [] = (sub = [])"
| "str_in sub (c # s) = (starts_with sub (c # s) \<or> str_in sub s)"

subsection \<open>Search and filters\<close>

record ListQuery =
  search :: "string option"
  status_q :: "IssueStatus option"
  priority_q :: "IssuePriority option"
  assignee_q :: "string option"
  sort_by :: "string option"
  sort_order :: "string option"
  page :: int
  page_size :: int

text \<open>\<^verbatim>\<open>page: int = Query(1, ge=1)\<close>, \<^verbatim>\<open>page_size: int = Query(10, ge=1, le=100)\<close>.\<close>

definition valid_paging :: "ListQuery \<Rightarrow> bool" where
  "valid_paging q = (1 \<le> page q \<and> 1 \<le> page_size q \<and> page_size q \<le> 100)"

text \<open>\<^verbatim>\<open>v and needle in v.lower()\<close> for an optional attribute \<^verbatim>\<open>v\<close>.\<close>

definition opt_contains :: "string \<Rightarrow> string option \<Rightarrow> bool" where
  "opt_contains needle v =
     (case v of None \<Rightarrow> False | Some s \<Rightarrow> s \<noteq> [] \<and> str_in needle (lower s))"

text \<open>
  The condition of the search comprehension. \<^verbatim>\<open>issue.title.lower()\<close> is evaluated
  first and raises \<^verbatim>\<open>AttributeError\<close> when the title is \<^verbatim>\<open>None\<close>.
\<close>

definition search_cond :: "string \<Rightarrow> Issue \<Rightarrow> exception + bool" where
  "search_cond search_lower issue =
     (case title issue of
        None \<Rightarrow> Inl AttributeError
      | Some t \<Rightarrow>
          Inr (str_in search_lower (lower t)
               \<or> opt_contains search_lower (description issue)
               \<or> opt_contains search_lower (assignee issue)))"

text \<open>A list comprehension whose condition may raise: the first exception ends it.\<close>

fun filter_exc :: "('a \<Rightarrow> exception + bool) \<Rightarrow> 'a list \<Rightarrow> exception + 'a list" where
  "filter_exc c [] = Inr []"
| "filter_exc c (x # xs) =
     (case c x of
        Inl e \<Rightarrow> Inl e
      | Inr b \<Rightarrow>
          (case filter_exc c xs of
             Inl e \<Rightarrow> Inl e
           | Inr ys \<Rightarrow> Inr (if b then x # ys else ys)))"

text \<open>Lines 233-240: \<^verbatim>\<open>if search:\<close> is false for \<^verbatim>\<open>None\<close> and for the empty string.\<close>

definition search_step :: "string option \<Rightarrow> Issue list \<Rightarrow> exception + Issue list" where
  "search_step s filtered_issues =
     (case s of
        None \<Rightarrow> Inr filtered_issues
      | Some term \<Rightarrow>
          if term = [] then Inr filtered_issues
          else filter_exc (search_cond (lower term)) filtered_issues)"

text \<open>Lines 243-250. An enum member is never falsy; an empty assignee filter is.\<close>

definition status_step :: "IssueStatus option \<Rightarrow> Issue list \<Rightarrow> Issue list" where
  "status_step st filtered_issues =
     (case st of
        None \<Rightarrow> filtered_issues
      | Some v \<Rightarrow> filter (\<lambda>issue. status issue = Some v) filtered_issues)"

definition priority_step :: "IssuePriority option \<Rightarrow> Issue list \<Rightarrow> Issue list" where
  "priority_step pr filtered_issues =
     (case pr of
        None \<Rightarrow> filtered_issues
      | Some v \<Rightarrow> filter (\<lambda>issue. priority issue = Some v) filtered_issues)"

definition assignee_step :: "string option \<Rightarrow> Issue list \<Rightarrow> Issue list" where
  "assignee_step a filtered_issues =
     (case a of
        None \<Rightarrow> filtered_issues
      | Some v \<Rightarrow>
          if v = [] then filtered_issues
          else filter (\<lambda>issue. opt_contains (lower v) (assignee issue)) filtered_issues)"

definition search_filter :: "ListQuery \<Rightarrow> Issue list \<Rightarrow> exception + Issue list" where
  "search_filter q issues_db =
     (case search_step (search q) issues_db of
        Inl e \<Rightarrow> Inl e
      | Inr found \<Rightarrow>
          Inr (assignee_step (assignee_q q)
                 (priority_step (priority_q q)
                    (status_step (status_q q) found))))"

subsection \<open>Sorting\<close>

text \<open>
  \<^verbatim>\<open>list.sort(key=..., reverse=...)\<close> is a stable sort; with \<^verbatim>\<open>reverse=True\<close>
  CPython reverses the list, sorts it and reverses it again, which keeps the elements with
  equal keys in their original order.
\<close>

definition py_sort :: "('a \<Rightarrow> 'k::linorder) \<Rightarrow> bool \<Rightarrow> 'a list \<Rightarrow> 'a list" where
  "py_sort key reverse xs =
     (if reverse then rev (sort_key key (rev xs)) else sort_key key xs)"

text \<open>\<^verbatim>\<open>status_order.get(x.status, 0)\<close> and \<^verbatim>\<open>priority_order.get(x.priority, 0)\<close>.\<close>

fun status_order :: "IssueStatus option \<Rightarrow> nat" where
  "status_order (Some open_status) = 1"
| "status_order (Some in_progress) = 2"
| "status_order (Some closed_status) = 3"
| "status_order None = 0"

fun priority_order :: "IssuePriority option \<Rightarrow> nat" where
  "priority_order (Some low) = 1"
| "priority_order (Some medium) = 2"
| "priority_order (Some high) = 3"
| "priority_order (Some critical) = 4"
| "priority_order None = 0"

text \<open>The key functions of the six branches.\<close>

definition title_key :: "Issue \<Rightarrow> string" where
  "title_key x = (case title x of Some t \<Rightarrow> lower t | None \<Rightarrow> [])"

definition status_key :: "Issue \<Rightarrow> nat" where
  "status_key x = status_order (status x)"

definition priority_key :: "Issue \<Rightarrow> nat" where
  "priority_key x = priority_order (priority x)"

definition assignee_key :: "Issue \<Rightarrow> string" where
  "assignee_key x = (case assignee x of Some a \<Rightarrow> a | None \<Rightarrow> [])"

text \<open>
  Lines 253-267. The keys are computed before the list is rearranged, so the title branch
  raises \<^verbatim>\<open>AttributeError\<close> as soon as one title is \<^verbatim>\<open>None\<close>; \<^const>\<open>title_key\<close> is
  applied only when every title is there.
\<close>

definition sort_stage ::
  "string option \<Rightarrow> string option \<Rightarrow> Issue list \<Rightarrow> exception + Issue list" where
  "sort_stage sb so filtered_issues =
     (let reverse = (so = Some ''desc'') in
      if sb = Some ''title'' then
        (if list_all (\<lambda>x. title x \<noteq> None) filtered_issues
         then Inr (py_sort title_key reverse filtered_issues)
         else Inl AttributeError)
      else if sb = Some ''status'' then Inr (py_sort status_key reverse filtered_issues)
      else if sb = Some ''priority'' then Inr (py_sort priority_key reverse filtered_issues)
      else if sb = Some ''assignee'' then Inr (py_sort assignee_key reverse filtered_issues)
      else if sb = Some ''created_at'' then Inr (py_sort created_at reverse filtered_issues)
      else Inr (py_sort updated_at reverse filtered_issues))"

definition filter_sort :: "ListQuery \<Rightarrow> Issue list \<Rightarrow> exception + Issue list" where
  "filter_sort q issues_db =
     (case search_filter q issues_db of
        Inl e \<Rightarrow> Inl e
      | Inr filtered_issues \<Rightarrow> sort_stage (sort_by q) (sort_order q) filtered_issues)"

subsection \<open>Pagination and the response\<close>

text \<open>A Python slice \<^verbatim>\<open>xs[a:b]\<close>: negative bounds count from the end, all are clamped.\<close>

definition slice_bound :: "int \<Rightarrow> nat \<Rightarrow> nat" where
  "slice_bound i n = (if i < 0 then nat (max 0 (i + int n)) else min (nat i) n)"

definition py_slice :: "'a list \<Rightarrow> int \<Rightarrow> int \<Rightarrow> 'a list" where
  "py_slice xs a b =
     (let lo = slice_bound a (length xs); hi = slice_bound b (length xs)
      in take (hi - lo) (drop lo xs))"

record ListResponse =
  issues :: "Issue list"
  page_r :: int
  pageSize :: int
  totalCount :: int
  totalPages :: int
  filters_applied :: "string option \<times> IssueStatus option \<times> IssuePriority option \<times> string option"
  sorting :: "string option \<times> string option"

definition get_issues :: "ListQuery \<Rightarrow> Issue list \<Rightarrow> exception + ListResponse" where
  "get_issues q issues_db =
     (case filter_sort q issues_db of
        Inl e \<Rightarrow> Inl e
      | Inr filtered_issues \<Rightarrow>
          (let total_count = int (length filtered_issues);
               start_index = (page q - 1) * page_size q;
               end_index = start_index + page_size q;
               paginated_issues = py_slice filtered_issues start_index end_index
           in if page_size q = 0 then Inl ZeroDivisionError
              else Inr \<lparr> issues = paginated_issues,
                         page_r = page q,
                         pageSize = page_size q,
                         totalCount = total_count,
                         totalPages = (total_count + page_size q - 1) div page_size q,
                         filters_applied = (search q, status_q q, priority_q q, assignee_q q),
                         sorting = (sort_by q, sort_order q) \<rparr>))"

section \<open>Traces of the store\<close>

text \<open>
  The collection is empty at process start and changes only through \<^verbatim>\<open>create_issue\<close>
  and \<^verbatim>\<open>update_issue\<close>. A request carries the values the handler reads from the
  environment: the new UUID and the clock readings, in the order the handler takes them.
\<close>

datatype request =
  Create IssueCreate string datetime datetime
  | Update string IssueUpdate datetime

fun handle :: "request \<Rightarrow> Issue list \<Rightarrow> Issue list" where
  "handle (Create issue_data uuid4 now1 now2) issues_db =
     snd (create_issue issue_data uuid4 now1 now2 issues_db)"
| "handle (Update iid issue_update now) issues_db =
     snd (update_issue iid issue_update now issues_db)"

fun run :: "request list \<Rightarrow> Issue list \<Rightarrow> Issue list" where
  "run [] issues_db = issues_db"
| "run (r # rs) issues_db = run rs (handle r issues_db)"

fun valid_request :: "request \<Rightarrow> bool" where
  "valid_request (Create issue_data uuid4 now1 now2) = valid_create issue_data"
| "valid_request (Update iid issue_update now) = valid_update issue_update"


section \<open>Notions used by the properties\<close>

text \<open>Every stored issue has a title, as the declaration \<^verbatim>\<open>title: str\<close> says.\<close>

definition titled :: "Issue list \<Rightarrow> bool" where
  "titled xs = list_all (\<lambda>x. title x \<noteq> None) xs"

text \<open>
  Case-insensitive substring, for an attribute that may be absent: the lower-cased term
  occurs in the lower-cased text; nothing occurs in an absent attribute.
\<close>

definition ci_occurs :: "string \<Rightarrow> string option \<Rightarrow> bool" where
  "ci_occurs term v =
     (case v of None \<Rightarrow> False | Some s \<Rightarrow> str_in (lower term) (lower s))"


text \<open>The same condition with the assignee filter applied only when it is non-empty.\<close>

definition survives :: "ListQuery \<Rightarrow> Issue \<Rightarrow> bool" where
  "survives q x =
     ((case search q of
         None \<Rightarrow> True
       | Some s \<Rightarrow> ci_occurs s (title x) \<or> ci_occurs s (description x) \<or> ci_occurs s (assignee x))
      \<and> (case status_q q of None \<Rightarrow> True | Some v \<Rightarrow> status x = Some v)
      \<and> (case priority_q q of None \<Rightarrow> True | Some v \<Rightarrow> priority x = Some v)
      \<and> (case assignee_q q of
            None \<Rightarrow> True
          | Some a \<Rightarrow> a = [] \<or> ci_occurs a (assignee x)))"

text \<open>Ascending and descending order with respect to the key that \<^verbatim>\<open>sort_by\<close> selects.\<close>

definition ascending_by :: "string option \<Rightarrow> Issue list \<Rightarrow> bool" where
  "ascending_by sb xs =
     (if sb = Some ''title'' then sorted (map title_key xs)
      else if sb = Some ''status'' then sorted (map status_key xs)
      else if sb = Some ''priority'' then sorted (map priority_key xs)
      else if sb = Some ''assignee'' then sorted (map assignee_key xs)
      else if sb = Some ''created_at'' then sorted (map created_at xs)
      else sorted (map updated_at xs))"

definition descending_by :: "string option \<Rightarrow> Issue list \<Rightarrow> bool" where
  "descending_by sb xs = ascending_by sb (rev xs)"

text \<open>The issues of page \<open>p\<close> of a query; an exception yields no issues.\<close>

definition page_issues :: "ListQuery \<Rightarrow> Issue list \<Rightarrow> int \<Rightarrow> Issue list" where
  "page_issues q issues_db p =
     (case get_issues (q \<lparr> page := p \<rparr>) issues_db of Inl e \<Rightarrow> [] | Inr r \<Rightarrow> issues r)"

text \<open>The query that the declared defaults give when the request has no parameter.\<close>

definition default_query :: ListQuery where
  "default_query =
     \<lparr> search = None, status_q = None, priority_q = None, assignee_q = None,
       sort_by = Some ''updated_at'', sort_order = Some ''desc'', page = 1, page_size = 10 \<rparr>"

text \<open>The patch that sets no field, and the patch \<^verbatim>\<open>{priority: "high"}\<close>.\<close>

definition empty_patch :: IssueUpdate where
  "empty_patch =
     \<lparr> title_u = None, description_u = None, status_u = None, priority_u = None,
       assignee_u = None \<rparr>"

definition priority_high_patch :: IssueUpdate where
  "priority_high_patch = empty_patch \<lparr> priority_u := Some (Some high) \<rparr>"

text \<open>The patch \<^verbatim>\<open>{assignee: null}\<close>.\<close>

definition clear_assignee_patch :: IssueUpdate where
  "clear_assignee_patch = empty_patch \<lparr> assignee_u := Some None \<rparr>"

subsection \<open>Example data\<close>

text \<open>The two issues of the example scenario, as \<^verbatim>\<open>create_issue\<close> stores them.\<close>

definition body_A :: IssueCreate where
  "body_A =
     \<lparr> title_c = ''Fix login bug'', description_c = None, status_c = open_status,
       priority_c = medium, assignee_c = None \<rparr>"

definition body_B :: IssueCreate where
  "body_B =
     \<lparr> title_c = ''Add dark mode'', description_c = None, status_c = open_status,
       priority_c = critical, assignee_c = Some ''Ann'' \<rparr>"

definition issue_A :: Issue where
  "issue_A = fst (create_issue body_A ''id-a'' 10 10 [])"

definition issue_B :: Issue where
  "issue_B = fst (create_issue body_B ''id-b'' 20 20 [issue_A])"

definition example_db :: "Issue list" where
  "example_db = run [Create body_A ''id-a'' 10 10, Create body_B ''id-b'' 20 20] []"

text \<open>The patch \<^verbatim>\<open>{title: null}\<close>.\<close>

definition null_title_patch :: IssueUpdate where
  "null_title_patch = empty_patch \<lparr> title_u := Some None \<rparr>"


text \<open>
  An issue has a title when the attribute holds a non-empty string. A request sets a null
  title when it is an update whose body carries \<^verbatim>\<open>"title": null\<close>.
\<close>

definition has_title :: "Issue \<Rightarrow> bool" where
  "has_title x = (case title x of None \<Rightarrow> False | Some t \<Rightarrow> t \<noteq> [])"

fun sets_null_title :: "request \<Rightarrow> bool" where
  "sets_null_title (Create issue_data uuid4 now1 now2) = False"
| "sets_null_title (Update iid issue_update now) = (title_u issue_update = Some None)"

text \<open>The search condition of \<^const>\<open>survives\<close> alone.\<close>

definition search_ok :: "string option \<Rightarrow> Issue \<Rightarrow> bool" where
  "search_ok s x =
     (case s of
        None \<Rightarrow> True
      | Some t \<Rightarrow> ci_occurs t (title x) \<or> ci_occurs t (description x) \<or> ci_occurs t (assignee x))"



definition status_query :: ListQuery where
  "status_query = default_query \<lparr> sort_by := Some ''status'', sort_order := Some ''asc'' \<rparr>"

text \<open>
  An issue titled with U+00C9, \<^verbatim>\<open>t\<close>, U+00E9, and a search term spelling the same word
  with the two cases exchanged.
\<close>

definition ete_title :: string where
  "ete_title = [char_of (201::nat), CHR ''t'', char_of (233::nat)]"

definition ete_term :: string where
  "ete_term = [char_of (233::nat), CHR ''t'', char_of (201::nat)]"




definition priority_query :: ListQuery where
  "priority_query = default_query \<lparr> sort_by := Some ''priority'' \<rparr>"

definition shouting_query :: ListQuery where
  "shouting_query = default_query \<lparr> sort_by := Some ''title'', sort_order := Some ''ASC'' \<rparr>"

definition second_page_query :: ListQuery where
  "second_page_query = default_query \<lparr> page := 2, page_size := 1 \<rparr>"

definition third_page_query :: ListQuery where
  "third_page_query = default_query \<lparr> page := 3, page_size := 1 \<rparr>"

section \<open>Partial update\<close>

lemma first_index_bound: "first_index P xs = Some i \<Longrightarrow> i < length xs"
  by (induction xs arbitrary: i) (auto split: if_splits)

lemma first_index_sat: "first_index P xs = Some i \<Longrightarrow> P (xs ! i)"
  by (induction xs arbitrary: i) (auto split: if_splits)

lemma first_index_none: "first_index P xs = None \<longleftrightarrow> (\<forall>x \<in> set xs. \<not> P x)"
  by (induction xs) auto

lemma example_db_eq: "example_db = [issue_A, issue_B]"
  by (simp add: example_db_def issue_A_def issue_B_def create_issue_def Let_def)

lemma first_index_A: "first_index (\<lambda>issue. issue_id issue = ''id-a'') example_db = Some 0"
  by (simp add: example_db_eq issue_A_def create_issue_def Let_def)

lemma first_index_B: "first_index (\<lambda>issue. issue_id issue = ''id-b'') example_db = Some 1"
  by (simp add: example_db_eq issue_A_def issue_B_def create_issue_def Let_def)

lemma update_issue_found:
  assumes "first_index (\<lambda>issue. issue_id issue = iid) db = Some i"
  shows "update_issue iid u now db =
           (Inr ((apply_update u (db ! i)) \<lparr> updated_at := now \<rparr>),
            db[i := (apply_update u (db ! i)) \<lparr> updated_at := now \<rparr>])"
  using assms by (simp add: update_issue_def Let_def)

lemma update_issue_missing:
  assumes "first_index (\<lambda>issue. issue_id issue = iid) db = None"
  shows "update_issue iid u now db = (Inl (not_found iid), db)"
  using assms by (simp add: update_issue_def)

text \<open>
  C4. When the issue exists, each of the five client-settable fields ends up with the
  request's value if the request carries the field (also when that value is \<^verbatim>\<open>None\<close>),
  and keeps its previous value if the request omits it; \<^verbatim>\<open>id\<close> and \<^verbatim>\<open>created_at\<close> are
  kept and the collection changes at the position of that issue only. The patch
  \<^verbatim>\<open>{priority: "high"}\<close> changes the priority only, the patch \<^verbatim>\<open>{assignee: null}\<close>
  clears the assignee.
\<close>

theorem C4_partial_update:
  assumes "first_index (\<lambda>issue. issue_id issue = iid) db = Some i"
  shows "\<exists>new. update_issue iid u now db = (Inr new, db[i := new])
           \<and> issue_id (db ! i) = iid
           \<and> title new = (case title_u u of None \<Rightarrow> title (db ! i) | Some v \<Rightarrow> v)
           \<and> description new =
               (case description_u u of None \<Rightarrow> description (db ! i) | Some v \<Rightarrow> v)
           \<and> status new = (case status_u u of None \<Rightarrow> status (db ! i) | Some v \<Rightarrow> v)
           \<and> priority new = (case priority_u u of None \<Rightarrow> priority (db ! i) | Some v \<Rightarrow> v)
           \<and> assignee new = (case assignee_u u of None \<Rightarrow> assignee (db ! i) | Some v \<Rightarrow> v)
           \<and> issue_id new = issue_id (db ! i)
           \<and> created_at new = created_at (db ! i)
           \<and> (u = priority_high_patch \<longrightarrow>
                 new = (db ! i) \<lparr> priority := Some high, updated_at := now \<rparr>)
           \<and> (u = clear_assignee_patch \<longrightarrow>
                 new = (db ! i) \<lparr> assignee := None, updated_at := now \<rparr>)"
proof -
  let ?new = "(apply_update u (db ! i)) \<lparr> updated_at := now \<rparr>"
  have run: "update_issue iid u now db = (Inr ?new, db[i := ?new])"
    by (rule update_issue_found [OF assms])
  have target: "issue_id (db ! i) = iid"
    by (rule first_index_sat [OF assms])
  have fields:
    "title ?new = (case title_u u of None \<Rightarrow> title (db ! i) | Some v \<Rightarrow> v)"
    "description ?new = (case description_u u of None \<Rightarrow> description (db ! i) | Some v \<Rightarrow> v)"
    "status ?new = (case status_u u of None \<Rightarrow> status (db ! i) | Some v \<Rightarrow> v)"
    "priority ?new = (case priority_u u of None \<Rightarrow> priority (db ! i) | Some v \<Rightarrow> v)"
    "assignee ?new = (case assignee_u u of None \<Rightarrow> assignee (db ! i) | Some v \<Rightarrow> v)"
    "issue_id ?new = issue_id (db ! i)"
    "created_at ?new = created_at (db ! i)"
    by (simp_all add: apply_update_def set_field_def)
  have high: "u = priority_high_patch \<longrightarrow>
      ?new = (db ! i) \<lparr> priority := Some high, updated_at := now \<rparr>"
    by (simp add: apply_update_def set_field_def priority_high_patch_def empty_patch_def)
  have clear: "u = clear_assignee_patch \<longrightarrow>
      ?new = (db ! i) \<lparr> assignee := None, updated_at := now \<rparr>"
    by (simp add: apply_update_def set_field_def clear_assignee_patch_def empty_patch_def)
  from run target fields high clear show ?thesis by blast
qed

theorem C4_partial_update_witness:
  "(\<exists>new. update_issue ''id-a'' priority_high_patch 30 example_db = (Inr new, [new, issue_B])
      \<and> new = issue_A \<lparr> priority := Some high, updated_at := 30 \<rparr>
      \<and> title new = Some ''Fix login bug'' \<and> description new = None
      \<and> status new = Some open_status \<and> assignee new = None
      \<and> priority new = Some high)
   \<and> (\<exists>new. update_issue ''id-b'' clear_assignee_patch 30 example_db = (Inr new, [issue_A, new])
      \<and> new = issue_B \<lparr> assignee := None, updated_at := 30 \<rparr>
      \<and> assignee issue_B = Some ''Ann'')"
proof -
  have a: "\<exists>new. update_issue ''id-a'' priority_high_patch 30 example_db = (Inr new, [new, issue_B])
      \<and> new = issue_A \<lparr> priority := Some high, updated_at := 30 \<rparr>
      \<and> title new = Some ''Fix login bug'' \<and> description new = None
      \<and> status new = Some open_status \<and> assignee new = None
      \<and> priority new = Some high"
    using C4_partial_update [OF first_index_A, of priority_high_patch 30]
    by (auto simp add: example_db_eq issue_A_def create_issue_def body_A_def Let_def)
  have b: "\<exists>new. update_issue ''id-b'' clear_assignee_patch 30 example_db = (Inr new, [issue_A, new])
      \<and> new = issue_B \<lparr> assignee := None, updated_at := 30 \<rparr>
      \<and> assignee issue_B = Some ''Ann''"
    using C4_partial_update [OF first_index_B, of clear_assignee_patch 30]
    by (auto simp add: example_db_eq issue_B_def create_issue_def body_B_def Let_def)
  from a b show ?thesis by blast
qed

section \<open>Update of a missing issue\<close>

text \<open>
  C5. When no record of the collection has the requested id, \<^verbatim>\<open>update_issue\<close> raises the
  404 \<^verbatim>\<open>HTTPException\<close> whose body names the id, whatever the patch is, and the collection
  after the call is the collection before it.
\<close>

theorem C5_update_not_found:
  assumes "\<forall>x \<in> set db. issue_id x \<noteq> iid"
  shows "update_issue iid u now db =
           (Inl (HTTPException 404
                   \<lparr> error = ''Issue not found'',
                     message = ''No issue exists with ID: '' @ iid,
                     suggestion =
                       ''Check the issue ID or use GET /issues to see all available issues'' \<rparr>),
            db)"
proof -
  from assms have "first_index (\<lambda>issue. issue_id issue = iid) db = None"
    by (simp add: first_index_none)
  then show ?thesis
    by (simp add: update_issue_missing not_found_def)
qed

theorem C5_update_not_found_witness:
  "update_issue ''id-z'' priority_high_patch 30 example_db =
     (Inl (HTTPException 404
             \<lparr> error = ''Issue not found'',
               message = ''No issue exists with ID: id-z'',
               suggestion =
                 ''Check the issue ID or use GET /issues to see all available issues'' \<rparr>),
      example_db)"
proof -
  have "\<forall>x \<in> set example_db. issue_id x \<noteq> ''id-z''"
    by (simp add: example_db_eq issue_A_def issue_B_def create_issue_def Let_def)
  from C5_update_not_found [OF this, of priority_high_patch 30] show ?thesis by simp
qed

section \<open>Timestamps of an update\<close>

text \<open>
  C8. A successful update returns and stores a record whose \<^verbatim>\<open>updated_at\<close> is the clock
  reading of the call, with \<^verbatim>\<open>id\<close> and \<^verbatim>\<open>created_at\<close> as before; with the empty patch
  the record differs from the old one in \<^verbatim>\<open>updated_at\<close> only. No call of
  \<^verbatim>\<open>update_issue\<close>, successful or not, changes the \<^verbatim>\<open>id\<close> or the \<^verbatim>\<open>created_at\<close> of any
  record of the collection.
\<close>

theorem C8_update_timestamp:
  "(\<forall>i. first_index (\<lambda>issue. issue_id issue = iid) db = Some i \<longrightarrow>
        (\<exists>new. update_issue iid u now db = (Inr new, db[i := new])
           \<and> updated_at new = now
           \<and> issue_id new = issue_id (db ! i)
           \<and> created_at new = created_at (db ! i)
           \<and> (u = empty_patch \<longrightarrow> new = (db ! i) \<lparr> updated_at := now \<rparr>)))
   \<and> map issue_id (snd (update_issue iid u now db)) = map issue_id db
   \<and> map created_at (snd (update_issue iid u now db)) = map created_at db"
proof (cases "first_index (\<lambda>issue. issue_id issue = iid) db")
  case None
  then show ?thesis by (simp add: update_issue_missing)
next
  case (Some i)
  let ?new = "(apply_update u (db ! i)) \<lparr> updated_at := now \<rparr>"
  have run: "update_issue iid u now db = (Inr ?new, db[i := ?new])"
    by (rule update_issue_found [OF Some])
  have i: "i < length db" by (rule first_index_bound [OF Some])
  have keep: "issue_id ?new = issue_id (db ! i)" "created_at ?new = created_at (db ! i)"
    by (simp_all add: apply_update_def)
  have ids: "map issue_id (db[i := ?new]) = map issue_id db"
    using i keep(1) by (simp add: map_update list_update_same_conv)
  have cs: "map created_at (db[i := ?new]) = map created_at db"
    using i keep(2) by (simp add: map_update list_update_same_conv)
  have e: "u = empty_patch \<longrightarrow> ?new = (db ! i) \<lparr> updated_at := now \<rparr>"
    by (simp add: apply_update_def set_field_def empty_patch_def)
  show ?thesis using Some run keep ids cs e by simp
qed

theorem C8_update_timestamp_witness:
  "\<exists>new. update_issue ''id-a'' empty_patch 30 example_db = (Inr new, [new, issue_B])
      \<and> new = issue_A \<lparr> updated_at := 30 \<rparr>"
  using C8_update_timestamp [of "''id-a''" example_db empty_patch 30] first_index_A
  by (auto simp add: example_db_eq)

section \<open>Invariants of the store\<close>

text \<open>
  C6. The title invariant does not hold: after a valid create, the valid update request
  whose body is \<^verbatim>\<open>{"title": null}\<close> leaves the stored issue with title \<^verbatim>\<open>None\<close>.
\<close>

theorem C6_null_title_stored:
  "valid_request (Create body_A ''id-a'' 10 10)
   \<and> valid_request (Update ''id-a'' null_title_patch 30)
   \<and> map title (run [Create body_A ''id-a'' 10 10, Update ''id-a'' null_title_patch 30] []) = [None]"
  by (simp add: valid_create_def valid_update_def max_len_def body_A_def null_title_patch_def
      empty_patch_def create_issue_def update_issue_def apply_update_def set_field_def Let_def)

text \<open>
  Without such a request the invariant holds: valid requests of which none sets a null
  title keep every stored title non-empty.
\<close>

lemma handle_has_title:
  assumes "\<forall>x \<in> set db. has_title x" and "valid_request r" and "\<not> sets_null_title r"
  shows "\<forall>x \<in> set (handle r db). has_title x"
proof (cases r)
  case (Create issue_data uuid4 now1 now2)
  with assms show ?thesis
    by (auto simp add: create_issue_def Let_def has_title_def valid_create_def)
next
  case (Update iid issue_update now)
  show ?thesis
  proof (cases "first_index (\<lambda>issue. issue_id issue = iid) db")
    case None
    with Update assms(1) show ?thesis by (simp add: update_issue_missing)
  next
    case (Some i)
    let ?new = "(apply_update issue_update (db ! i)) \<lparr> updated_at := now \<rparr>"
    have "i < length db" by (rule first_index_bound [OF Some])
    then have old: "has_title (db ! i)" using assms(1) by simp
    have new: "has_title ?new"
    proof (cases "title_u issue_update")
      case None
      with old show ?thesis by (simp add: has_title_def apply_update_def set_field_def)
    next
      case (Some v)
      with assms(2,3) Update obtain t where "v = Some t" "1 \<le> length t"
        by (cases v) (auto simp add: valid_update_def)
      with Some show ?thesis
        by (auto simp add: has_title_def apply_update_def set_field_def)
    qed
    have "set (db[i := ?new]) \<subseteq> insert ?new (set db)"
      by (rule set_update_subset_insert)
    with new assms(1) have "\<forall>x \<in> set (db[i := ?new]). has_title x" by auto
    then show ?thesis using Update by (simp add: update_issue_found [OF Some])
  qed
qed

lemma run_has_title:
  assumes "\<forall>x \<in> set db. has_title x"
    and "\<forall>r \<in> set rs. valid_request r \<and> \<not> sets_null_title r"
  shows "\<forall>x \<in> set (run rs db). has_title x"
  using assms
proof (induction rs arbitrary: db)
  case Nil
  then show ?case by simp
next
  case (Cons r rs)
  from Cons.prems have "\<forall>x \<in> set (handle r db). has_title x"
    by (intro handle_has_title) simp_all
  with Cons show ?case by simp
qed

lemma has_title_titled: "\<forall>x \<in> set db. has_title x \<Longrightarrow> titled db"
  by (auto simp add: titled_def list_all_iff has_title_def split: option.splits)








section \<open>Search and filter\<close>

lemma starts_with_iff: "starts_with sub s \<longleftrightarrow> (\<exists>ss. s = sub @ ss)"
  by (induction sub s rule: starts_with.induct) auto

lemma str_in_iff: "str_in sub s \<longleftrightarrow> (\<exists>ps ss. s = ps @ sub @ ss)"
proof (induction s)
  case Nil
  then show ?case by auto
next
  case (Cons c s)
  show ?case
  proof
    assume "str_in sub (c # s)"
    then consider "starts_with sub (c # s)" | "str_in sub s" by auto
    then show "\<exists>ps ss. c # s = ps @ sub @ ss"
    proof cases
      case 1
      then obtain ss where "c # s = sub @ ss" by (auto simp add: starts_with_iff)
      then have "c # s = [] @ sub @ ss" by simp
      then show ?thesis by blast
    next
      case 2
      then obtain ps ss where "s = ps @ sub @ ss" using Cons.IH by auto
      then have "c # s = (c # ps) @ sub @ ss" by simp
      then show ?thesis by blast
    qed
  next
    assume "\<exists>ps ss. c # s = ps @ sub @ ss"
    then obtain ps ss where e: "c # s = ps @ sub @ ss" by auto
    show "str_in sub (c # s)"
    proof (cases ps)
      case Nil
      with e have "starts_with sub (c # s)" by (auto simp add: starts_with_iff)
      then show ?thesis by simp
    next
      case (Cons p ps')
      with e have "s = ps' @ sub @ ss" by simp
      then have "str_in sub s" using Cons.IH by auto
      then show ?thesis by simp
    qed
  qed
qed

lemma str_in_empty: "str_in [] s"
  by (cases s) simp_all

lemma filter_exc_total:
  assumes "\<forall>x \<in> set xs. c x = Inr (P x)"
  shows "filter_exc c xs = Inr (filter P xs)"
  using assms by (induction xs) simp_all

lemma opt_contains_ci:
  assumes "term \<noteq> []"
  shows "opt_contains (lower term) v = ci_occurs term v"
proof (cases v)
  case None
  then show ?thesis by (simp add: opt_contains_def ci_occurs_def)
next
  case (Some s)
  from assms have "lower term \<noteq> []" by (simp add: lower_def)
  then have "s = [] \<Longrightarrow> \<not> str_in (lower term) (lower s)" by (simp add: lower_def)
  with Some show ?thesis by (auto simp add: opt_contains_def ci_occurs_def)
qed

lemma search_step_titled:
  assumes "titled db"
  shows "search_step s db = Inr (filter (search_ok s) db)"
proof (cases s)
  case None
  then show ?thesis by (simp add: search_step_def search_ok_def)
next
  case (Some t)
  show ?thesis
  proof (cases "t = []")
    case True
    have "\<forall>x \<in> set db. ci_occurs [] (title x)"
      using assms by (auto simp add: titled_def list_all_iff ci_occurs_def lower_def str_in_empty)
    then have "filter (search_ok s) db = db"
      using Some True by (simp add: search_ok_def)
    then show ?thesis using Some True by (simp add: search_step_def)
  next
    case False
    have "\<forall>x \<in> set db. search_cond (lower t) x = Inr (search_ok s x)"
    proof
      fix x assume "x \<in> set db"
      then obtain ti where ti: "title x = Some ti"
        using assms by (auto simp add: titled_def list_all_iff)
      show "search_cond (lower t) x = Inr (search_ok s x)"
        using ti Some by (simp add: search_cond_def search_ok_def opt_contains_ci [OF False] ci_occurs_def)
    qed
    then have "filter_exc (search_cond (lower t)) db = Inr (filter (search_ok s) db)"
      by (rule filter_exc_total)
    then show ?thesis using Some False by (simp add: search_step_def)
  qed
qed

lemma status_step_filter:
  "status_step st xs = filter (\<lambda>x. case st of None \<Rightarrow> True | Some v \<Rightarrow> status x = Some v) xs"
  by (cases st) (simp_all add: status_step_def)

lemma priority_step_filter:
  "priority_step pr xs = filter (\<lambda>x. case pr of None \<Rightarrow> True | Some v \<Rightarrow> priority x = Some v) xs"
  by (cases pr) (simp_all add: priority_step_def)

lemma assignee_step_filter:
  "assignee_step a xs =
     filter (\<lambda>x. case a of None \<Rightarrow> True | Some v \<Rightarrow> v = [] \<or> ci_occurs v (assignee x)) xs"
proof (cases a)
  case None
  then show ?thesis by (simp add: assignee_step_def)
next
  case (Some v)
  then show ?thesis
    by (cases "v = []") (simp_all add: assignee_step_def opt_contains_ci)
qed

lemma search_filter_titled:
  assumes "titled db"
  shows "search_filter q db = Inr (filter (survives q) db)"
proof -
  have "(\<lambda>x. search_ok (search q) x
            \<and> (case status_q q of None \<Rightarrow> True | Some v \<Rightarrow> status x = Some v)
            \<and> (case priority_q q of None \<Rightarrow> True | Some v \<Rightarrow> priority x = Some v)
            \<and> (case assignee_q q of None \<Rightarrow> True | Some v \<Rightarrow> v = [] \<or> ci_occurs v (assignee x)))
        = survives q"
    by (rule ext) (simp add: survives_def search_ok_def)
  then show ?thesis
    by (simp add: search_filter_def search_step_titled [OF assms] status_step_filter
        priority_step_filter assignee_step_filter conj_commute conj_left_commute)
qed

lemma titled_example: "titled example_db"
  by (simp add: titled_def example_db_eq issue_A_def issue_B_def create_issue_def Let_def)




lemma lower_latin1:
  "lower ete_title = [char_of (233::nat), CHR ''t'', char_of (233::nat)]
   \<and> lower ete_term = lower ete_title
   \<and> lower [char_of (215::nat), char_of (223::nat), CHR ''Z'', CHR ''['', CHR ''@'']
       = [char_of (215::nat), char_of (223::nat), CHR ''z'', CHR ''['', CHR ''@'']"
  by code_simp





section \<open>Sorting\<close>

lemma py_sort_ascending: "sorted (map key (py_sort key False xs))"
  by (simp add: py_sort_def)

lemma py_sort_descending: "sorted (rev (map key (py_sort key True xs)))"
  by (simp add: py_sort_def rev_map [symmetric])

lemma py_sort_stable:
  "filter (\<lambda>x. key x = k) (py_sort key r xs) = filter (\<lambda>x. key x = k) xs"
proof (cases r)
  case False
  then show ?thesis by (simp add: py_sort_def sort_key_stable)
next
  case True
  have "filter (\<lambda>x. key x = k) (rev (sort_key key (rev xs)))
          = rev (filter (\<lambda>x. key x = k) (sort_key key (rev xs)))"
    by (simp add: rev_filter)
  also have "\<dots> = rev (filter (\<lambda>x. key x = k) (rev xs))"
    by (simp add: sort_key_stable)
  also have "\<dots> = filter (\<lambda>x. key x = k) xs"
    by (simp add: rev_filter)
  finally show ?thesis using True by (simp add: py_sort_def)
qed

lemma set_py_sort: "set (py_sort key r xs) = set xs"
  by (simp add: py_sort_def)

lemma length_py_sort: "length (py_sort key r xs) = length xs"
  by (simp add: py_sort_def)

lemma priority_key_fun: "priority_key = (\<lambda>x. priority_order (priority x))"
  by (rule ext) (simp add: priority_key_def)

lemma status_key_fun: "status_key = (\<lambda>x. status_order (status x))"
  by (rule ext) (simp add: status_key_def)

lemma sort_stage_priority:
  "sort_stage (Some ''priority'') so xs = Inr (py_sort priority_key (so = Some ''desc'') xs)"
  by (simp add: sort_stage_def)

lemma sort_stage_status:
  "sort_stage (Some ''status'') so xs = Inr (py_sort status_key (so = Some ''desc'') xs)"
  by (simp add: sort_stage_def)

lemma titled_filter: "titled xs \<Longrightarrow> titled (filter P xs)"
  by (simp add: titled_def list_all_iff)

lemma descending_by_rev:
  "descending_by sb xs =
     (if sb = Some ''title'' then sorted (rev (map title_key xs))
      else if sb = Some ''status'' then sorted (rev (map status_key xs))
      else if sb = Some ''priority'' then sorted (rev (map priority_key xs))
      else if sb = Some ''assignee'' then sorted (rev (map assignee_key xs))
      else if sb = Some ''created_at'' then sorted (rev (map created_at xs))
      else sorted (rev (map updated_at xs)))"
  by (simp add: descending_by_def ascending_by_def rev_map)

lemma sort_stage_ascending:
  assumes "so \<noteq> Some ''desc''" and "sb = Some ''title'' \<longrightarrow> titled xs"
  shows "\<exists>ys. sort_stage sb so xs = Inr ys \<and> ascending_by sb ys"
  using assms
  by (auto simp add: sort_stage_def ascending_by_def titled_def py_sort_ascending)

lemma sort_stage_descending:
  assumes "sb = Some ''title'' \<longrightarrow> titled xs"
  shows "\<exists>ys. sort_stage sb (Some ''desc'') xs = Inr ys \<and> descending_by sb ys"
  using assms
  by (auto simp add: sort_stage_def descending_by_rev titled_def py_sort_descending)

lemma sort_stage_not_desc:
  assumes "so \<noteq> Some ''desc''"
  shows "sort_stage sb so xs = sort_stage sb (Some ''asc'') xs"
  using assms by (simp add: sort_stage_def)

lemma filter_sort_titled:
  assumes "titled db"
  shows "filter_sort q db = sort_stage (sort_by q) (sort_order q) (filter (survives q) db)"
  by (simp add: filter_sort_def search_filter_titled [OF assms])

lemma filter_sort_priority:
  assumes "titled db" and "sort_by q = Some ''priority''"
  shows "filter_sort q db =
           Inr (py_sort priority_key (sort_order q = Some ''desc'') (filter (survives q) db))"
  using assms(2) by (simp add: filter_sort_titled [OF assms(1)] sort_stage_priority)

lemma filter_sort_status:
  assumes "titled db" and "sort_by q = Some ''status''"
  shows "filter_sort q db =
           Inr (py_sort status_key (sort_order q = Some ''desc'') (filter (survives q) db))"
  using assms(2) by (simp add: filter_sort_titled [OF assms(1)] sort_stage_status)

lemma rank_sort_stage:
  fixes key :: "Issue \<Rightarrow> nat"
  shows "(so = Some ''asc'' \<longrightarrow> sorted (map key (py_sort key (so = Some ''desc'') xs)))
       \<and> (so = Some ''desc'' \<longrightarrow> sorted (rev (map key (py_sort key (so = Some ''desc'') xs))))
       \<and> (\<forall>k. filter (\<lambda>x. key x = k) (py_sort key (so = Some ''desc'') xs)
                = filter (\<lambda>x. key x = k) xs)
       \<and> set (py_sort key (so = Some ''desc'') xs) = set xs
       \<and> length (py_sort key (so = Some ''desc'') xs) = length xs"
  using py_sort_ascending [of key xs] py_sort_descending [of key xs]
  by (auto simp add: py_sort_stable set_py_sort length_py_sort)

lemma rank_sort_pipeline:
  fixes key :: "Issue \<Rightarrow> nat"
  shows "filter (\<lambda>x. key x = k) (py_sort key r (filter P db))
           = filter (\<lambda>x. P x \<and> key x = k) db"
  by (simp add: py_sort_stable conj_commute)

text \<open>
  C2. For \<^verbatim>\<open>sort_by="priority"\<close> the sort stage returns its input reordered by the rank
  low=1, medium=2, high=3, critical=4 (and, for \<^verbatim>\<open>sort_by="status"\<close>, by open=1,
  in-progress=2, closed=3): ascending for \<^verbatim>\<open>"asc"\<close>, descending for \<^verbatim>\<open>"desc"\<close>, and in
  both directions the records of one rank keep the order they had in the input. In the
  whole pipeline, on a collection whose issues all have a title, the records of one rank
  are the matching records of that rank in collection order.
\<close>

theorem C2_rank_sort:
  "(\<exists>ys. sort_stage (Some ''priority'') so xs = Inr ys
       \<and> (so = Some ''asc'' \<longrightarrow> sorted (map (\<lambda>x. priority_order (priority x)) ys))
       \<and> (so = Some ''desc'' \<longrightarrow> sorted (rev (map (\<lambda>x. priority_order (priority x)) ys)))
       \<and> (\<forall>k. filter (\<lambda>x. priority_order (priority x) = k) ys
                = filter (\<lambda>x. priority_order (priority x) = k) xs)
       \<and> set ys = set xs \<and> length ys = length xs)
   \<and> (\<exists>ys. sort_stage (Some ''status'') so xs = Inr ys
       \<and> (so = Some ''asc'' \<longrightarrow> sorted (map (\<lambda>x. status_order (status x)) ys))
       \<and> (so = Some ''desc'' \<longrightarrow> sorted (rev (map (\<lambda>x. status_order (status x)) ys)))
       \<and> (\<forall>k. filter (\<lambda>x. status_order (status x) = k) ys
                = filter (\<lambda>x. status_order (status x) = k) xs)
       \<and> set ys = set xs \<and> length ys = length xs)
   \<and> map priority_order [Some low, Some medium, Some high, Some critical] = [1, 2, 3, 4]
   \<and> map status_order [Some open_status, Some in_progress, Some closed_status] = [1, 2, 3]
   \<and> (titled db \<and> sort_by q = Some ''priority'' \<longrightarrow>
        (\<exists>ys. filter_sort q db = Inr ys
           \<and> (\<forall>k. filter (\<lambda>x. priority_order (priority x) = k) ys
                    = filter (\<lambda>x. survives q x \<and> priority_order (priority x) = k) db)))
   \<and> (titled db \<and> sort_by q = Some ''status'' \<longrightarrow>
        (\<exists>ys. filter_sort q db = Inr ys
           \<and> (\<forall>k. filter (\<lambda>x. status_order (status x) = k) ys
                    = filter (\<lambda>x. survives q x \<and> status_order (status x) = k) db)))"
proof -
  have p: "\<exists>ys. sort_stage (Some ''priority'') so xs = Inr ys
       \<and> (so = Some ''asc'' \<longrightarrow> sorted (map (\<lambda>x. priority_order (priority x)) ys))
       \<and> (so = Some ''desc'' \<longrightarrow> sorted (rev (map (\<lambda>x. priority_order (priority x)) ys)))
       \<and> (\<forall>k. filter (\<lambda>x. priority_order (priority x) = k) ys
                = filter (\<lambda>x. priority_order (priority x) = k) xs)
       \<and> set ys = set xs \<and> length ys = length xs"
    using rank_sort_stage [of so "\<lambda>x. priority_order (priority x)" xs]
    by (simp add: sort_stage_priority priority_key_fun)
  have s: "\<exists>ys. sort_stage (Some ''status'') so xs = Inr ys
       \<and> (so = Some ''asc'' \<longrightarrow> sorted (map (\<lambda>x. status_order (status x)) ys))
       \<and> (so = Some ''desc'' \<longrightarrow> sorted (rev (map (\<lambda>x. status_order (status x)) ys)))
       \<and> (\<forall>k. filter (\<lambda>x. status_order (status x) = k) ys
                = filter (\<lambda>x. status_order (status x) = k) xs)
       \<and> set ys = set xs \<and> length ys = length xs"
    using rank_sort_stage [of so "\<lambda>x. status_order (status x)" xs]
    by (simp add: sort_stage_status status_key_fun)
  have r: "map priority_order [Some low, Some medium, Some high, Some critical] = [1, 2, 3, 4]"
    "map status_order [Some open_status, Some in_progress, Some closed_status] = [1, 2, 3]"
    by simp_all
  have pp: "titled db \<and> sort_by q = Some ''priority'' \<longrightarrow>
        (\<exists>ys. filter_sort q db = Inr ys
           \<and> (\<forall>k. filter (\<lambda>x. priority_order (priority x) = k) ys
                    = filter (\<lambda>x. survives q x \<and> priority_order (priority x) = k) db))"
    using rank_sort_pipeline [of "\<lambda>x. priority_order (priority x)" _ _ "survives q" db]
    by (simp add: filter_sort_priority priority_key_fun)
  have sp: "titled db \<and> sort_by q = Some ''status'' \<longrightarrow>
        (\<exists>ys. filter_sort q db = Inr ys
           \<and> (\<forall>k. filter (\<lambda>x. status_order (status x) = k) ys
                    = filter (\<lambda>x. survives q x \<and> status_order (status x) = k) db))"
    using rank_sort_pipeline [of "\<lambda>x. status_order (status x)" _ _ "survives q" db]
    by (simp add: filter_sort_status status_key_fun)
  from p s r pp sp show ?thesis by blast
qed

lemma priority_desc_example:
  "sort_stage (Some ''priority'') (Some ''desc'') example_db = Inr [issue_B, issue_A]"
  by code_simp

lemma status_desc_example:
  "sort_stage (Some ''status'') (Some ''desc'') example_db = Inr [issue_A, issue_B]"
  by code_simp

lemma priority_pipeline_example:
  "titled example_db \<and> sort_by priority_query = Some ''priority''
   \<and> filter_sort priority_query example_db = Inr [issue_B, issue_A]"
  by code_simp

lemma priority_asc_example:
  "sort_stage (Some ''priority'') (Some ''asc'') [issue_B, issue_A] = Inr [issue_A, issue_B]"
  by code_simp

lemma status_pipeline_example:
  "sort_by status_query = Some ''status''
   \<and> filter_sort status_query example_db = Inr [issue_A, issue_B]"
  by code_simp

theorem C2_rank_sort_witness:
  "(\<exists>ys. sort_stage (Some ''priority'') (Some ''desc'') example_db = Inr ys
      \<and> ys = [issue_B, issue_A]
      \<and> sorted (rev (map (\<lambda>x. priority_order (priority x)) ys)))
   \<and> (\<exists>ys. sort_stage (Some ''priority'') (Some ''asc'') [issue_B, issue_A] = Inr ys
      \<and> ys = [issue_A, issue_B]
      \<and> sorted (map (\<lambda>x. priority_order (priority x)) ys))
   \<and> (\<exists>ys. sort_stage (Some ''status'') (Some ''desc'') example_db = Inr ys
      \<and> ys = [issue_A, issue_B]
      \<and> sorted (rev (map (\<lambda>x. status_order (status x)) ys))
      \<and> filter (\<lambda>x. status_order (status x) = 1) ys
          = filter (\<lambda>x. status_order (status x) = 1) example_db)
   \<and> titled example_db \<and> sort_by priority_query = Some ''priority''
   \<and> (\<exists>ys. filter_sort priority_query example_db = Inr ys
      \<and> ys = [issue_B, issue_A]
      \<and> filter (\<lambda>x. priority_order (priority x) = 4) ys
          = filter (\<lambda>x. survives priority_query x \<and> priority_order (priority x) = 4)
              example_db)
   \<and> sort_by status_query = Some ''status''
   \<and> (\<exists>ys. filter_sort status_query example_db = Inr ys
      \<and> ys = [issue_A, issue_B]
      \<and> filter (\<lambda>x. status_order (status x) = 1) ys
          = filter (\<lambda>x. survives status_query x \<and> status_order (status x) = 1)
              example_db)"
proof -
  have d: "(\<exists>ys. sort_stage (Some ''priority'') (Some ''desc'') example_db = Inr ys
      \<and> ys = [issue_B, issue_A]
      \<and> sorted (rev (map (\<lambda>x. priority_order (priority x)) ys)))
   \<and> (\<exists>ys. sort_stage (Some ''status'') (Some ''desc'') example_db = Inr ys
      \<and> ys = [issue_A, issue_B]
      \<and> sorted (rev (map (\<lambda>x. status_order (status x)) ys))
      \<and> filter (\<lambda>x. status_order (status x) = 1) ys
          = filter (\<lambda>x. status_order (status x) = 1) example_db)
   \<and> titled example_db \<and> sort_by priority_query = Some ''priority''
   \<and> (\<exists>ys. filter_sort priority_query example_db = Inr ys
      \<and> ys = [issue_B, issue_A]
      \<and> filter (\<lambda>x. priority_order (priority x) = 4) ys
          = filter (\<lambda>x. survives priority_query x \<and> priority_order (priority x) = 4)
              example_db)"
    using C2_rank_sort [of "Some ''desc''" example_db example_db priority_query]
      priority_desc_example status_desc_example priority_pipeline_example
    by auto
  have a: "(\<exists>ys. sort_stage (Some ''priority'') (Some ''asc'') [issue_B, issue_A] = Inr ys
      \<and> ys = [issue_A, issue_B]
      \<and> sorted (map (\<lambda>x. priority_order (priority x)) ys))
   \<and> sort_by status_query = Some ''status''
   \<and> (\<exists>ys. filter_sort status_query example_db = Inr ys
      \<and> ys = [issue_A, issue_B]
      \<and> filter (\<lambda>x. status_order (status x) = 1) ys
          = filter (\<lambda>x. survives status_query x \<and> status_order (status x) = 1)
              example_db)"
    using C2_rank_sort [of "Some ''asc''" "[issue_B, issue_A]" example_db status_query]
      priority_asc_example status_pipeline_example priority_pipeline_example
    by auto
  from d a show ?thesis by blast
qed

lemma filter_sort_returns:
  assumes "titled db"
  shows "\<exists>ys. filter_sort q db = Inr ys"
proof -
  have "sort_by q = Some ''title'' \<longrightarrow> titled (filter (survives q) db)"
    using assms by (simp add: titled_filter)
  then show ?thesis
    using sort_stage_descending [of "sort_by q" "filter (survives q) db"]
      sort_stage_ascending [of "sort_order q" "sort_by q" "filter (survives q) db"]
    by (cases "sort_order q = Some ''desc''") (auto simp add: filter_sort_titled [OF assms])
qed

lemma sort_stage_Inr_ascending:
  assumes "so \<noteq> Some ''desc''" and "sort_stage sb so xs = Inr ys"
  shows "ascending_by sb ys"
  using assms
  by (auto simp add: sort_stage_def ascending_by_def py_sort_ascending split: if_splits)

lemma sort_stage_Inr_descending:
  assumes "sort_stage sb (Some ''desc'') xs = Inr zs"
  shows "descending_by sb zs"
  using assms
  by (auto simp add: sort_stage_def descending_by_rev py_sort_descending split: if_splits)

lemma filter_sort_order:
  "filter_sort (q \<lparr> sort_order := v \<rparr>) db =
     (case search_filter q db of Inl e \<Rightarrow> Inl e | Inr xs \<Rightarrow> sort_stage (sort_by q) v xs)"
  by (simp add: filter_sort_def search_filter_def split: sum.splits)

lemma sorted_slice:
  assumes "sorted (map f ys)"
  shows "sorted (map f (py_slice ys a b))"
proof -
  have "sorted (take k (drop l (map f ys)))" for k l
    using assms by simp
  then show ?thesis
    by (simp add: py_slice_def Let_def take_map drop_map)
qed

lemma sorted_rev_slice:
  assumes "sorted (rev (map f ys))"
  shows "sorted (rev (map f (py_slice ys a b)))"
proof -
  from assms have "sorted_wrt (\<lambda>x y. y \<le> x) (map f ys)"
    by (simp add: sorted_wrt_rev)
  then have "sorted_wrt (\<lambda>x y. y \<le> x) (take k (drop l (map f ys)))" for k l
    by simp
  then show ?thesis
    by (simp add: py_slice_def Let_def take_map drop_map sorted_wrt_rev)
qed

lemma ascending_by_slice:
  assumes "ascending_by sb ys"
  shows "ascending_by sb (py_slice ys a b)"
  using assms by (auto simp add: ascending_by_def sorted_slice split: if_splits)

lemma descending_by_slice:
  assumes "descending_by sb ys"
  shows "descending_by sb (py_slice ys a b)"
  using assms by (auto simp add: descending_by_rev sorted_rev_slice split: if_splits)

lemma get_issues_Inr:
  assumes "get_issues q db = Inr r"
  shows "\<exists>ys. filter_sort q db = Inr ys
           \<and> issues r = py_slice ys ((page q - 1) * page_size q)
                           ((page q - 1) * page_size q + page_size q)"
  using assms by (auto simp add: get_issues_def Let_def split: sum.splits if_splits)

text \<open>
  C10. A query whose \<^verbatim>\<open>sort_order\<close> is anything but \<^verbatim>\<open>"desc"\<close> is answered as the same
  query with \<^verbatim>\<open>"asc"\<close>: \<^verbatim>\<open>get_issues\<close> returns the same response but for the echoed
  \<^verbatim>\<open>sort_order\<close>, and raises exactly when the other raises. The issues of a returned page
  are a slice of the filtered sequence sorted in ascending order of the selected key, and
  are themselves in ascending order; with \<^verbatim>\<open>"desc"\<close>, the declared default, they are in
  descending order. No value of \<^verbatim>\<open>sort_order\<close> raises: on a collection whose issues all
  have a title the stages return a sequence and \<^verbatim>\<open>get_issues\<close> a response.
\<close>

theorem C10_sort_order:
  assumes "so \<noteq> Some ''desc''"
  shows "filter_sort (q \<lparr> sort_order := so \<rparr>) db
           = filter_sort (q \<lparr> sort_order := Some ''asc'' \<rparr>) db
         \<and> (\<forall>ys. filter_sort (q \<lparr> sort_order := so \<rparr>) db = Inr ys
               \<longrightarrow> ascending_by (sort_by q) ys)
         \<and> (\<forall>zs. filter_sort (q \<lparr> sort_order := Some ''desc'' \<rparr>) db = Inr zs
               \<longrightarrow> descending_by (sort_by q) zs)
         \<and> (titled db \<longrightarrow>
               (\<exists>ys. filter_sort (q \<lparr> sort_order := so \<rparr>) db = Inr ys)
             \<and> (page_size q \<noteq> 0 \<longrightarrow>
                  (\<exists>r. get_issues (q \<lparr> sort_order := so \<rparr>) db = Inr r)))
         \<and> sort_order default_query = Some ''desc''
         \<and> map_sum id (\<lambda>r. r \<lparr> sorting := (sort_by q, Some ''asc'') \<rparr>)
               (get_issues (q \<lparr> sort_order := so \<rparr>) db)
             = get_issues (q \<lparr> sort_order := Some ''asc'' \<rparr>) db
         \<and> (\<forall>r. get_issues (q \<lparr> sort_order := so \<rparr>) db = Inr r \<longrightarrow>
               ascending_by (sort_by q) (issues r)
             \<and> (\<exists>ys. filter_sort (q \<lparr> sort_order := so \<rparr>) db = Inr ys
                   \<and> issues r = py_slice ys ((page q - 1) * page_size q)
                                   ((page q - 1) * page_size q + page_size q)))
         \<and> (\<forall>r. get_issues (q \<lparr> sort_order := Some ''desc'' \<rparr>) db = Inr r \<longrightarrow>
               descending_by (sort_by q) (issues r)
             \<and> (\<exists>zs. filter_sort (q \<lparr> sort_order := Some ''desc'' \<rparr>) db = Inr zs
                   \<and> issues r = py_slice zs ((page q - 1) * page_size q)
                                   ((page q - 1) * page_size q + page_size q)))"
proof -
  have same: "filter_sort (q \<lparr> sort_order := so \<rparr>) db
                = filter_sort (q \<lparr> sort_order := Some ''asc'' \<rparr>) db"
    using sort_stage_not_desc [OF assms, of "sort_by q"]
    by (simp add: filter_sort_order split: sum.splits)
  have asc: "\<forall>ys. filter_sort (q \<lparr> sort_order := so \<rparr>) db = Inr ys
               \<longrightarrow> ascending_by (sort_by q) ys"
    using sort_stage_Inr_ascending [OF assms, of "sort_by q"]
    by (auto simp add: filter_sort_order split: sum.splits)
  have desc: "\<forall>zs. filter_sort (q \<lparr> sort_order := Some ''desc'' \<rparr>) db = Inr zs
               \<longrightarrow> descending_by (sort_by q) zs"
    using sort_stage_Inr_descending [of "sort_by q"]
    by (auto simp add: filter_sort_order split: sum.splits)
  have ret: "titled db \<longrightarrow>
               (\<exists>ys. filter_sort (q \<lparr> sort_order := so \<rparr>) db = Inr ys)
             \<and> (page_size q \<noteq> 0 \<longrightarrow>
                  (\<exists>r. get_issues (q \<lparr> sort_order := so \<rparr>) db = Inr r))"
  proof
    assume t: "titled db"
    obtain ys where ys: "filter_sort (q \<lparr> sort_order := so \<rparr>) db = Inr ys"
      using filter_sort_returns [OF t] by blast
    have "page_size q \<noteq> 0 \<longrightarrow> (\<exists>r. get_issues (q \<lparr> sort_order := so \<rparr>) db = Inr r)"
      using ys by (simp add: get_issues_def Let_def)
    with ys show "(\<exists>ys. filter_sort (q \<lparr> sort_order := so \<rparr>) db = Inr ys)
             \<and> (page_size q \<noteq> 0 \<longrightarrow>
                  (\<exists>r. get_issues (q \<lparr> sort_order := so \<rparr>) db = Inr r))"
      by blast
  qed
  have d: "sort_order default_query = Some ''desc''"
    by (simp add: default_query_def)
  have resp: "map_sum id (\<lambda>r. r \<lparr> sorting := (sort_by q, Some ''asc'') \<rparr>)
               (get_issues (q \<lparr> sort_order := so \<rparr>) db)
             = get_issues (q \<lparr> sort_order := Some ''asc'' \<rparr>) db"
    using same by (simp add: get_issues_def Let_def split: sum.splits)
  have pa: "\<forall>r. get_issues (q \<lparr> sort_order := so \<rparr>) db = Inr r \<longrightarrow>
               ascending_by (sort_by q) (issues r)
             \<and> (\<exists>ys. filter_sort (q \<lparr> sort_order := so \<rparr>) db = Inr ys
                   \<and> issues r = py_slice ys ((page q - 1) * page_size q)
                                   ((page q - 1) * page_size q + page_size q))"
  proof (intro allI impI)
    fix r assume r: "get_issues (q \<lparr> sort_order := so \<rparr>) db = Inr r"
    from get_issues_Inr [OF r] obtain ys where
      ys: "filter_sort (q \<lparr> sort_order := so \<rparr>) db = Inr ys"
      "issues r = py_slice ys ((page q - 1) * page_size q)
                    ((page q - 1) * page_size q + page_size q)"
      by auto
    from asc ys(1) have "ascending_by (sort_by q) ys" by blast
    then have "ascending_by (sort_by q) (issues r)"
      by (simp only: ys(2) ascending_by_slice)
    with ys show "ascending_by (sort_by q) (issues r)
             \<and> (\<exists>ys. filter_sort (q \<lparr> sort_order := so \<rparr>) db = Inr ys
                   \<and> issues r = py_slice ys ((page q - 1) * page_size q)
                                   ((page q - 1) * page_size q + page_size q))"
      by blast
  qed
  have pd: "\<forall>r. get_issues (q \<lparr> sort_order := Some ''desc'' \<rparr>) db = Inr r \<longrightarrow>
               descending_by (sort_by q) (issues r)
             \<and> (\<exists>zs. filter_sort (q \<lparr> sort_order := Some ''desc'' \<rparr>) db = Inr zs
                   \<and> issues r = py_slice zs ((page q - 1) * page_size q)
                                   ((page q - 1) * page_size q + page_size q))"
  proof (intro allI impI)
    fix r assume r: "get_issues (q \<lparr> sort_order := Some ''desc'' \<rparr>) db = Inr r"
    from get_issues_Inr [OF r] obtain zs where
      zs: "filter_sort (q \<lparr> sort_order := Some ''desc'' \<rparr>) db = Inr zs"
      "issues r = py_slice zs ((page q - 1) * page_size q)
                    ((page q - 1) * page_size q + page_size q)"
      by auto
    from desc zs(1) have "descending_by (sort_by q) zs" by blast
    then have "descending_by (sort_by q) (issues r)"
      by (simp only: zs(2) descending_by_slice)
    with zs show "descending_by (sort_by q) (issues r)
             \<and> (\<exists>zs. filter_sort (q \<lparr> sort_order := Some ''desc'' \<rparr>) db = Inr zs
                   \<and> issues r = py_slice zs ((page q - 1) * page_size q)
                                   ((page q - 1) * page_size q + page_size q))"
      by blast
  qed
  from same asc desc ret d resp pa pd show ?thesis by blast
qed

lemma shouting_example:
  "Some ''ASC'' \<noteq> Some ''desc'' \<and> titled example_db
   \<and> filter_sort shouting_query example_db = Inr [issue_B, issue_A]
   \<and> filter_sort (shouting_query \<lparr> sort_order := Some ''desc'' \<rparr>) example_db
       = Inr [issue_A, issue_B]
   \<and> shouting_query \<lparr> sort_order := Some ''ASC'' \<rparr> = shouting_query
   \<and> sort_by shouting_query = Some ''title''
   \<and> page_size shouting_query \<noteq> 0"
  by code_simp

lemma shouting_response:
  "map_sum id issues (get_issues shouting_query example_db) = Inr [issue_B, issue_A]
   \<and> map_sum id issues (get_issues (shouting_query \<lparr> sort_order := Some ''desc'' \<rparr>) example_db)
       = Inr [issue_A, issue_B]
   \<and> title_key issue_B < title_key issue_A"
  by code_simp

theorem C10_sort_order_witness:
  "Some ''ASC'' \<noteq> Some ''desc'' \<and> titled example_db
   \<and> filter_sort shouting_query example_db = Inr [issue_B, issue_A]
   \<and> filter_sort (shouting_query \<lparr> sort_order := Some ''asc'' \<rparr>) example_db
       = Inr [issue_B, issue_A]
   \<and> ascending_by (Some ''title'') [issue_B, issue_A]
   \<and> filter_sort (shouting_query \<lparr> sort_order := Some ''desc'' \<rparr>) example_db
       = Inr [issue_A, issue_B]
   \<and> descending_by (Some ''title'') [issue_A, issue_B]
   \<and> (\<exists>r. get_issues shouting_query example_db = Inr r
         \<and> issues r = [issue_B, issue_A]
         \<and> ascending_by (Some ''title'') (issues r)
         \<and> get_issues (shouting_query \<lparr> sort_order := Some ''asc'' \<rparr>) example_db
             = Inr (r \<lparr> sorting := (Some ''title'', Some ''asc'') \<rparr>))
   \<and> (\<exists>r. get_issues (shouting_query \<lparr> sort_order := Some ''desc'' \<rparr>) example_db = Inr r
         \<and> issues r = [issue_A, issue_B]
         \<and> descending_by (Some ''title'') (issues r))
   \<and> title_key issue_B < title_key issue_A"
proof -
  have h: "Some ''ASC'' \<noteq> Some ''desc''"
    using shouting_example by simp
  have same: "shouting_query \<lparr> sort_order := Some ''ASC'' \<rparr> = shouting_query"
    and sb: "sort_by shouting_query = Some ''title''"
    using shouting_example by simp_all
  note c = C10_sort_order [OF h, of shouting_query example_db, unfolded same sb]
  obtain r where r: "get_issues shouting_query example_db = Inr r"
    "issues r = [issue_B, issue_A]"
    using shouting_response by (cases "get_issues shouting_query example_db") auto
  obtain r' where r':
    "get_issues (shouting_query \<lparr> sort_order := Some ''desc'' \<rparr>) example_db = Inr r'"
    "issues r' = [issue_A, issue_B]"
    using shouting_response
    by (cases "get_issues (shouting_query \<lparr> sort_order := Some ''desc'' \<rparr>) example_db") auto
  from c r(1) have ar: "ascending_by (Some ''title'') (issues r)" by blast
  from c r'(1) have dr: "descending_by (Some ''title'') (issues r')" by blast
  from c r(1) have er: "get_issues (shouting_query \<lparr> sort_order := Some ''asc'' \<rparr>) example_db
             = Inr (r \<lparr> sorting := (Some ''title'', Some ''asc'') \<rparr>)"
    by simp
  from c shouting_example
  have fa: "filter_sort (shouting_query \<lparr> sort_order := Some ''asc'' \<rparr>) example_db
       = Inr [issue_B, issue_A]" by simp
  from ar r(2) have a2: "ascending_by (Some ''title'') [issue_B, issue_A]" by simp
  from dr r'(2) have d2: "descending_by (Some ''title'') [issue_A, issue_B]" by simp
  from h shouting_example shouting_response fa a2 d2 r r' ar dr er
  show ?thesis by blast
qed


section \<open>Pagination\<close>

lemma ceil_div:
  fixes n d :: int
  assumes "0 < d"
  shows "(n + d - 1) div d = \<lceil>real_of_int n / real_of_int d\<rceil>"
proof -
  define c where "c = (n + d - 1) div d"
  have m: "0 \<le> (n + d - 1) mod d" "(n + d - 1) mod d < d"
    using assms by simp_all
  have e: "c * d + (n + d - 1) mod d = n + d - 1"
    unfolding c_def by simp
  from e m have l: "n \<le> c * d" by linarith
  from e m have u: "(c - 1) * d < n" by (simp add: algebra_simps)
  have rd: "0 < real_of_int d" using assms by simp
  from l have "real_of_int n \<le> real_of_int (c * d)" by (simp only: of_int_le_iff)
  then have upper: "real_of_int n / real_of_int d \<le> real_of_int c"
    using rd by (simp add: pos_divide_le_eq)
  from u have "real_of_int ((c - 1) * d) < real_of_int n" by (simp only: of_int_less_iff)
  then have lower: "real_of_int c - 1 < real_of_int n / real_of_int d"
    using rd by (simp add: pos_less_divide_eq)
  from lower upper have "\<lceil>real_of_int n / real_of_int d\<rceil> = c"
    by (simp add: ceiling_eq_iff)
  then show ?thesis by (simp add: c_def)
qed

lemma slice_nth:
  assumes "lo \<le> hi" and "hi \<le> length ys"
  shows "take (hi - lo) (drop lo ys) = map ((!) ys) [lo..<hi]"
proof (rule nth_equalityI)
  show "length (take (hi - lo) (drop lo ys)) = length (map ((!) ys) [lo..<hi])"
    using assms by simp
next
  fix i assume "i < length (take (hi - lo) (drop lo ys))"
  then have "i < hi - lo" by simp
  then show "take (hi - lo) (drop lo ys) ! i = map ((!) ys) [lo..<hi] ! i"
    using assms by simp
qed

lemma py_slice_window:
  assumes "0 \<le> a" and "a \<le> b"
  shows "py_slice ys a b = map ((!) ys) [nat a..<min (nat b) (length ys)]"
proof (cases "nat a \<le> length ys")
  case True
  have lo: "slice_bound a (length ys) = nat a"
    using assms True by (simp add: slice_bound_def)
  have hi: "slice_bound b (length ys) = min (nat b) (length ys)"
    using assms by (simp add: slice_bound_def)
  have "nat a \<le> min (nat b) (length ys)" using assms True by simp
  then show ?thesis
    by (simp add: py_slice_def lo hi Let_def slice_nth)
next
  case False
  have lo: "slice_bound a (length ys) = length ys"
    using assms False by (simp add: slice_bound_def)
  have hi: "slice_bound b (length ys) = length ys"
    using assms False by (simp add: slice_bound_def)
  show ?thesis using False by (simp add: py_slice_def lo hi Let_def)
qed

lemma py_slice_take_drop:
  assumes "0 \<le> a" and "0 \<le> n"
  shows "py_slice ys a (a + n) = take (nat n) (drop (nat a) ys)"
proof -
  have lo: "slice_bound a (length ys) = min (nat a) (length ys)"
    using assms by (simp add: slice_bound_def)
  have hi: "slice_bound (a + n) (length ys) = min (nat a + nat n) (length ys)"
    using assms by (simp add: slice_bound_def nat_add_distrib)
  show ?thesis
  proof (cases "nat a \<le> length ys")
    case True
    then have "take (min (nat a + nat n) (length ys) - nat a) (drop (nat a) ys)
                 = take (nat n) (drop (nat a) ys)"
      by (simp add: min_def)
    with True show ?thesis by (simp add: py_slice_def lo hi Let_def)
  next
    case False
    then show ?thesis by (simp add: py_slice_def lo hi Let_def)
  qed
qed

lemma get_issues_ok:
  assumes "filter_sort q db = Inr ys" and "page_size q \<noteq> 0"
  shows "get_issues q db =
           Inr \<lparr> issues = py_slice ys ((page q - 1) * page_size q)
                              ((page q - 1) * page_size q + page_size q),
                 page_r = page q,
                 pageSize = page_size q,
                 totalCount = int (length ys),
                 totalPages = (int (length ys) + page_size q - 1) div page_size q,
                 filters_applied = (search q, status_q q, priority_q q, assignee_q q),
                 sorting = (sort_by q, sort_order q) \<rparr>"
  using assms by (simp add: get_issues_def Let_def)

lemma filter_sort_page: "filter_sort (q \<lparr> page := p \<rparr>) db = filter_sort q db"
  by (simp add: filter_sort_def search_filter_def split: sum.splits)

text \<open>
  C3. For \<^verbatim>\<open>page\<close> at least 1 and \<^verbatim>\<open>page_size\<close> from 1 to 100, whenever the filter and
  sort stages yield a sequence, \<^verbatim>\<open>get_issues\<close> returns the records at the positions
  from \<^verbatim>\<open>(page-1)*page_size\<close> up to, and not including, \<^verbatim>\<open>page*page_size\<close> that the
  sequence has; this is the empty page when the page starts past the end. The returned
  \<^verbatim>\<open>totalCount\<close> is the length of the sequence and \<^verbatim>\<open>totalPages\<close> is the ceiling of
  \<^verbatim>\<open>totalCount / page_size\<close>. The stages yield a sequence on every collection whose
  issues all have a title.
\<close>

theorem C3_pagination:
  assumes "valid_paging q"
  shows "(\<forall>ys. filter_sort q db = Inr ys \<longrightarrow>
            (\<exists>r. get_issues q db = Inr r
               \<and> issues r = map ((!) ys) [nat ((page q - 1) * page_size q)
                                          ..<min (nat (page q * page_size q)) (length ys)]
               \<and> (int (length ys) \<le> (page q - 1) * page_size q \<longrightarrow> issues r = [])
               \<and> totalCount r = int (length ys)
               \<and> totalPages r = \<lceil>real_of_int (totalCount r) / real_of_int (page_size q)\<rceil>))
         \<and> (titled db \<longrightarrow> (\<exists>ys. filter_sort q db = Inr ys))"
proof -
  from assms have pg: "1 \<le> page q" and ps: "1 \<le> page_size q"
    by (simp_all add: valid_paging_def)
  let ?a = "(page q - 1) * page_size q"
  have a0: "0 \<le> ?a" using pg ps by simp
  have ab: "?a \<le> ?a + page_size q" using ps by simp
  have b: "?a + page_size q = page q * page_size q" by (simp add: algebra_simps)
  have main: "\<exists>r. get_issues q db = Inr r
               \<and> issues r = map ((!) ys) [nat ?a..<min (nat (page q * page_size q)) (length ys)]
               \<and> (int (length ys) \<le> ?a \<longrightarrow> issues r = [])
               \<and> totalCount r = int (length ys)
               \<and> totalPages r = \<lceil>real_of_int (totalCount r) / real_of_int (page_size q)\<rceil>"
    if fs: "filter_sort q db = Inr ys" for ys
  proof -
    have nz: "page_size q \<noteq> 0" using ps by simp
    have w: "py_slice ys ?a (?a + page_size q)
               = map ((!) ys) [nat ?a..<min (nat (page q * page_size q)) (length ys)]"
      using py_slice_window [OF a0 ab, of ys] by (simp only: b)
    have e: "int (length ys) \<le> ?a \<longrightarrow>
               map ((!) ys) [nat ?a..<min (nat (page q * page_size q)) (length ys)] = []"
      by auto
    have c: "(int (length ys) + page_size q - 1) div page_size q
               = \<lceil>real_of_int (int (length ys)) / real_of_int (page_size q)\<rceil>"
      using ps by (intro ceil_div) simp
    show ?thesis
      using w e c by (simp add: get_issues_ok [OF fs nz])
  qed
  have ret: "titled db \<longrightarrow> (\<exists>ys. filter_sort q db = Inr ys)"
    using filter_sort_returns by blast
  from main ret show ?thesis by blast
qed

lemma second_page_example:
  "valid_paging second_page_query
   \<and> filter_sort second_page_query example_db = Inr [issue_B, issue_A]
   \<and> page second_page_query = 2 \<and> page_size second_page_query = 1"
  by code_simp

lemma third_page_example:
  "valid_paging third_page_query
   \<and> filter_sort third_page_query example_db = Inr [issue_B, issue_A]
   \<and> page third_page_query = 3 \<and> page_size third_page_query = 1"
  by code_simp

theorem C3_pagination_witness:
  "titled example_db
   \<and> valid_paging second_page_query
   \<and> filter_sort second_page_query example_db = Inr [issue_B, issue_A]
   \<and> (\<exists>r. get_issues second_page_query example_db = Inr r
         \<and> issues r = [issue_A] \<and> totalCount r = 2 \<and> totalPages r = 2)
   \<and> valid_paging third_page_query
   \<and> filter_sort third_page_query example_db = Inr [issue_B, issue_A]
   \<and> (\<exists>r. get_issues third_page_query example_db = Inr r
         \<and> issues r = [] \<and> totalCount r = 2 \<and> totalPages r = 2)"
proof -
  have v2: "valid_paging second_page_query" and v3: "valid_paging third_page_query"
    using second_page_example third_page_example by simp_all
  have u: "[Suc 0..<2] = [1]" by (simp add: upt_rec)
  have two: "\<exists>r. get_issues second_page_query example_db = Inr r
         \<and> issues r = [issue_A] \<and> totalCount r = 2 \<and> totalPages r = 2"
    using C3_pagination [OF v2, of example_db] second_page_example
    by (auto simp add: u)
  have three: "\<exists>r. get_issues third_page_query example_db = Inr r
         \<and> issues r = [] \<and> totalCount r = 2 \<and> totalPages r = 2"
    using C3_pagination [OF v3, of example_db] third_page_example
    by auto
  from two three second_page_example third_page_example titled_example
  show ?thesis by blast
qed

lemma pages_concat:
  "concat (map (\<lambda>i. take n (drop (i * n) ys)) [0..<k]) = take (k * n) ys"
proof (induction k)
  case 0
  then show ?case by simp
next
  case (Suc k)
  have "Suc k * n = k * n + n" by simp
  then have "take (Suc k * n) ys = take (k * n) ys @ take n (drop (k * n) ys)"
    by (simp only: take_add)
  with Suc show ?case by simp
qed

lemma upto_shift: "0 \<le> t \<Longrightarrow> [1..t] = map (\<lambda>i. int i + 1) [0..<nat t]"
  by (rule nth_equalityI) simp_all

text \<open>
  C9. For a fixed query with \<^verbatim>\<open>page_size\<close> from 1 to 100 whose filter and sort stages
  yield a sequence, every page from 1 to \<^verbatim>\<open>totalPages\<close> is returned without an exception
  and reports the same \<^verbatim>\<open>totalPages\<close>, and the pages 1 to \<^verbatim>\<open>totalPages\<close> put one after
  the other are that sequence.
\<close>

theorem C9_pages_cover:
  assumes "1 \<le> page_size q" and "page_size q \<le> 100" and "filter_sort q db = Inr ys"
  shows "(\<forall>p \<in> {1..(int (length ys) + page_size q - 1) div page_size q}.
            \<exists>r. get_issues (q \<lparr> page := p \<rparr>) db = Inr r
               \<and> issues r = page_issues q db p
               \<and> totalPages r = (int (length ys) + page_size q - 1) div page_size q)
         \<and> concat (map (page_issues q db)
                     [1..(int (length ys) + page_size q - 1) div page_size q]) = ys"
proof -
  let ?n = "page_size q"
  let ?t = "(int (length ys) + ?n - 1) div ?n"
  have nz: "page_size (q \<lparr> page := p \<rparr>) \<noteq> 0" for p using assms(1) by simp
  have fs: "filter_sort (q \<lparr> page := p \<rparr>) db = Inr ys" for p
    using assms(3) by (simp add: filter_sort_page)
  have resp: "\<exists>r. get_issues (q \<lparr> page := p \<rparr>) db = Inr r
               \<and> issues r = page_issues q db p \<and> totalPages r = ?t" for p
    by (simp add: get_issues_ok [OF fs nz] page_issues_def)
  have pg: "page_issues q db (int i + 1) = take (nat ?n) (drop (i * nat ?n) ys)" for i
  proof -
    have "py_slice ys (int i * ?n) (int i * ?n + ?n) = take (nat ?n) (drop (nat (int i * ?n)) ys)"
      using assms(1) by (intro py_slice_take_drop) simp_all
    moreover have "nat (int i * ?n) = i * nat ?n"
      using assms(1) by (simp add: nat_mult_distrib)
    ultimately show ?thesis
      by (simp add: get_issues_ok [OF fs nz] page_issues_def)
  qed
  have t0: "0 \<le> ?t" using assms(1) by (simp add: pos_imp_zdiv_nonneg_iff)
  have cover: "length ys \<le> nat ?t * nat ?n"
  proof -
    have "0 \<le> (int (length ys) + ?n - 1) mod ?n" "(int (length ys) + ?n - 1) mod ?n < ?n"
      using assms(1) by simp_all
    moreover have "?t * ?n + (int (length ys) + ?n - 1) mod ?n = int (length ys) + ?n - 1"
      by simp
    ultimately have "int (length ys) \<le> ?t * ?n" by linarith
    then have "int (length ys) \<le> int (nat ?t * nat ?n)"
      using t0 assms(1) by simp
    then show ?thesis by (simp only: of_nat_le_iff)
  qed
  have "concat (map (page_issues q db) [1..?t])
          = concat (map (\<lambda>i. take (nat ?n) (drop (i * nat ?n) ys)) [0..<nat ?t])"
    by (simp add: upto_shift [OF t0] comp_def pg)
  also have "\<dots> = take (nat ?t * nat ?n) ys" by (rule pages_concat)
  also have "\<dots> = ys" using cover by simp
  finally show ?thesis using resp by blast
qed

lemma page_issues_examples:
  "page_issues second_page_query example_db 1 = [issue_B]
   \<and> page_issues second_page_query example_db 2 = [issue_A]"
  by code_simp

theorem C9_pages_cover_witness:
  "1 \<le> page_size second_page_query \<and> page_size second_page_query \<le> 100
   \<and> filter_sort second_page_query example_db = Inr [issue_B, issue_A]
   \<and> concat (map (page_issues second_page_query example_db) [1..2]) = [issue_B, issue_A]
   \<and> page_issues second_page_query example_db 1 = [issue_B]
   \<and> page_issues second_page_query example_db 2 = [issue_A]"
proof -
  have h: "1 \<le> page_size second_page_query" "page_size second_page_query \<le> 100"
    "filter_sort second_page_query example_db = Inr [issue_B, issue_A]"
    using second_page_example by simp_all
  have "(int (length [issue_B, issue_A]) + page_size second_page_query - 1)
          div page_size second_page_query = 2"
    using second_page_example by simp
  with C9_pages_cover [OF h] have
    "concat (map (page_issues second_page_query example_db) [1..2]) = [issue_B, issue_A]"
    by simp
  with h page_issues_examples show ?thesis by simp
qed


end
